theory Spec2Isabelle
  imports Main "HOL-Library.Word"
begin

unbundle bit_operations_syntax

section \<open>The sensor poll context of sensors/STML0XX_MAG/sensors_p_c.cpp\<close>

text \<open>
  The file defines \<open>sensors_poll_context_t\<close>: two driver objects behind \<open>SensorBase*\<close>
  pointers (the hub driver and the AKM magnetometer driver), a self-pipe, and the
  routing of \<open>activate\<close>, \<open>setDelay\<close>, \<open>batch\<close>, \<open>flush\<close> and \<open>pollEvents\<close> to them.

  Everything the file calls but does not define is a parameter of the model:
  \<^item> the logical sensor ids \<open>ID_A\<close> ... \<open>ID_M\<close> of \<open>sensors.h\<close> (a record of integers);
  \<^item> the virtual methods of \<open>SensorBase\<close> (a record of functions over the private state
    of the driver object);
  \<^item> what \<open>poll(2)\<close> reports at each call (a script held in the environment).
  Every call that leaves the file (a virtual method of a driver, \<open>poll\<close>, \<open>write\<close>,
  \<open>read\<close>) is appended to a trace, so that which collaborator was called, in which
  order and with which arguments is a value the theorems can speak about.
  The C \<open>int\<close> is modelled as \<open>int\<close>: handles, error codes and counts are only compared,
  negated and passed on, and the counter arithmetic of \<open>pollEvents\<close> stays within the
  caller's capacity whenever the drivers return counts between zero and the capacity
  they were given.
\<close>

subsection \<open>Constants of the platform headers\<close>

text \<open>\<open>errno.h\<close> and \<open>poll.h\<close> on Linux.\<close>

definition EINVAL :: int where "EINVAL = 22"
definition EINTR :: int where "EINTR = 4"
definition POLLIN :: "16 word" where "POLLIN = 1"

text \<open>
  The logical sensor ids are macros of \<open>sensors.h\<close>, which is not part of the source at
  hand. They are a parameter. The labels of one \<open>switch\<close> are pairwise different in any
  program that compiles, which is what \<open>ids_distinct\<close> says.
\<close>

record sensor_ids =
  ID_A :: int
  ID_L :: int
  ID_DR :: int
  ID_P :: int
  ID_FU :: int
  ID_FD :: int
  ID_S :: int
  ID_CA :: int
  ID_A2 :: int
  ID_M :: int

definition hub_ids :: "sensor_ids \<Rightarrow> int list" where
  "hub_ids ids = [ID_A ids, ID_L ids, ID_DR ids, ID_P ids, ID_FU ids, ID_FD ids,
                  ID_S ids, ID_CA ids, ID_A2 ids]"

definition recognized_ids :: "sensor_ids \<Rightarrow> int list" where
  "recognized_ids ids = hub_ids ids @ [ID_M ids]"

definition ids_distinct :: "sensor_ids \<Rightarrow> bool" where
  "ids_distinct ids = distinct (recognized_ids ids)"

subsection \<open>The members of \<open>sensors_poll_context_t\<close>\<close>

text \<open>The anonymous enum: indices into \<open>mSensors\<close> and \<open>mPollFds\<close>.\<close>

definition accelgyromag :: nat where "accelgyromag = 0"
definition akm :: nat where "akm = 1"
definition numSensorDrivers :: nat where "numSensorDrivers = 2"
definition numFds :: nat where "numFds = 3"
definition wake :: nat where "wake = numFds - 1"
definition WAKE_MESSAGE :: char where "WAKE_MESSAGE = CHR ''W''"

type_synonym int64_t = "64 word"

record pollfd =
  fd :: int
  events :: "16 word"
  revents :: "16 word"

text \<open>
  A driver object: the virtual methods of \<open>SensorBase\<close> that this file calls, as
  functions over the object's private state \<open>self\<close>. \<open>readEvents(data, count)\<close> returns
  its \<open>int\<close> result together with the records it stored at \<open>data[0]\<close>, \<open>data[1]\<close>, ...
\<close>

record ('s, 'e) SensorBase =
  drv_getFd :: "'s \<Rightarrow> int"
  drv_setEnable :: "'s \<Rightarrow> int \<Rightarrow> int \<Rightarrow> int \<times> 's"
  drv_setDelay :: "'s \<Rightarrow> int \<Rightarrow> int64_t \<Rightarrow> int \<times> 's"
  drv_hasPendingEvents :: "'s \<Rightarrow> bool"
  drv_readEvents :: "'s \<Rightarrow> int \<Rightarrow> (int \<times> 'e list) \<times> 's"
  drv_flush :: "'s \<Rightarrow> int \<Rightarrow> int \<times> 's"
  self :: 's

text \<open>A \<open>SensorBase*\<close> is \<open>None\<close> when it is the null pointer.\<close>

record ('s, 'e) sensors_poll_context_t =
  mPollFds :: "pollfd list"
  mWritePipeFd :: int
  mSensors :: "('s, 'e) SensorBase option list"

subsection \<open>The environment\<close>

text \<open>
  One answer of \<open>poll(2)\<close>: its return value, the \<open>errno\<close> it leaves, and the \<open>revents\<close>
  it writes into the entries of the array (used when the call succeeds).
\<close>

record poll_result =
  p_ret :: int
  p_errno :: int
  p_revents :: "16 word list"

text \<open>The calls that leave the file, with the arguments the file passes.\<close>

datatype ext_call =
    SysPoll int int                     \<comment> \<open>timeout, return value\<close>
  | SysWrite int "char list"            \<comment> \<open>descriptor, bytes\<close>
  | SysRead int nat                     \<comment> \<open>descriptor, number of bytes asked for\<close>
  | DrvSetEnable nat int int            \<comment> \<open>index in \<open>mSensors\<close>, handle, enabled\<close>
  | DrvSetDelay nat int int64_t         \<comment> \<open>index, handle, ns\<close>
  | DrvHasPendingEvents nat             \<comment> \<open>index\<close>
  | DrvReadEvents nat int int int       \<comment> \<open>index, offset of \<open>data\<close>, count, result\<close>
  | DrvFlush nat int                    \<comment> \<open>index, handle\<close>

text \<open>
  The environment: the answers the coming calls of \<open>poll\<close> will give, in order, and the
  trace of the calls made so far. When the script is used up the next \<open>poll\<close> does not
  return.
\<close>

record world =
  poll_script :: "poll_result list"
  trace :: "ext_call list"

definition log :: "ext_call \<Rightarrow> world \<Rightarrow> world" where
  "log c w = w\<lparr>trace := trace w @ [c]\<rparr>"

text \<open>
  Calling a method through a null \<open>SensorBase*\<close> is undefined behaviour in C++; the model
  stops there with \<open>NullDereference\<close>. It is not an error code the function returns.
\<close>

datatype fault = NullDereference

subsection \<open>Construction\<close>

text \<open>
  The constructor's inputs: what the two \<open>new(std::nothrow)\<close> expressions gave, what
  \<open>pipe\<close> returned and left in \<open>wakeFds\<close>, and the indeterminate contents \<open>uninit\<close> of
  the member array \<open>mPollFds\<close> before the body runs. An entry of \<open>mPollFds\<close> is
  assigned only when its driver was allocated. The result of \<open>pipe\<close> is only logged,
  and the two \<open>fcntl\<close> calls change no member.
\<close>

definition new_sensors_poll_context_t ::
  "('s, 'e) SensorBase option \<Rightarrow> ('s, 'e) SensorBase option \<Rightarrow> int \<times> int \<times> int \<Rightarrow>
   pollfd list \<Rightarrow> ('s, 'e) sensors_poll_context_t" where
  "new_sensors_poll_context_t hub mag pipe_res uninit =
     (let fds0 = (case hub of
                    Some s \<Rightarrow> uninit[accelgyromag :=
                                \<lparr>fd = drv_getFd s (self s), events = POLLIN, revents = 0\<rparr>]
                  | None \<Rightarrow> uninit);
          fds1 = (case mag of
                    Some s \<Rightarrow> fds0[akm :=
                                \<lparr>fd = drv_getFd s (self s), events = POLLIN, revents = 0\<rparr>]
                  | None \<Rightarrow> fds0);
          (result, wakeFds0, wakeFds1) = pipe_res
      in \<lparr>mPollFds = fds1[wake := \<lparr>fd = wakeFds0, events = POLLIN, revents = 0\<rparr>],
          mWritePipeFd = wakeFds1,
          mSensors = [hub, mag]\<rparr>)"

subsection \<open>Routing\<close>

text \<open>
  The \<open>switch\<close> of \<open>handleToDriver\<close>: nine labels return \<open>accelgyromag\<close>, \<open>ID_M\<close>
  returns \<open>akm\<close>, and control falls out to \<open>return -EINVAL\<close> otherwise. The control
  calls return the \<open>int\<close> of the source together with the context and the environment
  after the call, or the fault.
\<close>

definition handleToDriver :: "sensor_ids \<Rightarrow> int \<Rightarrow> int" where
  "handleToDriver ids handle =
     (if handle = ID_A ids \<or> handle = ID_L ids \<or> handle = ID_DR ids \<or> handle = ID_P ids \<or>
         handle = ID_FU ids \<or> handle = ID_FD ids \<or> handle = ID_S ids \<or> handle = ID_CA ids \<or>
         handle = ID_A2 ids
      then int accelgyromag
      else if handle = ID_M ids then int akm
      else - EINVAL)"

definition activate ::
  "sensor_ids \<Rightarrow> ('s, 'e) sensors_poll_context_t \<Rightarrow> world \<Rightarrow> int \<Rightarrow> int \<Rightarrow>
   fault + (int \<times> ('s, 'e) sensors_poll_context_t \<times> world)" where
  "activate ids ctx w handle enabled =
     (let drv = handleToDriver ids handle in
      if drv < 0 then Inr (- EINVAL, ctx, w)
      else case mSensors ctx ! nat drv of
        None \<Rightarrow> Inl NullDereference
      | Some sensor \<Rightarrow>
          (let (err, self') = drv_setEnable sensor (self sensor) handle enabled;
               ctx1 = ctx\<lparr>mSensors := (mSensors ctx)[nat drv := Some (sensor\<lparr>self := self'\<rparr>)]\<rparr>;
               w1 = log (DrvSetEnable (nat drv) handle enabled) w;
               w2 = (if handle = ID_M ids \<and> enabled \<noteq> 0 \<and> err = 0
                     then log (SysWrite (mWritePipeFd ctx) [WAKE_MESSAGE]) w1
                     else w1)
           in Inr (err, ctx1, w2)))"

definition setDelay ::
  "sensor_ids \<Rightarrow> ('s, 'e) sensors_poll_context_t \<Rightarrow> world \<Rightarrow> int \<Rightarrow> int64_t \<Rightarrow>
   fault + (int \<times> ('s, 'e) sensors_poll_context_t \<times> world)" where
  "setDelay ids ctx w handle ns =
     (let drv = handleToDriver ids handle in
      if drv < 0 then Inr (- EINVAL, ctx, w)
      else case mSensors ctx ! nat drv of
        None \<Rightarrow> Inl NullDereference
      | Some sensor \<Rightarrow>
          (let (err, self') = drv_setDelay sensor (self sensor) handle ns;
               ctx1 = ctx\<lparr>mSensors := (mSensors ctx)[nat drv := Some (sensor\<lparr>self := self'\<rparr>)]\<rparr>;
               w1 = log (DrvSetDelay (nat drv) handle ns) w
           in Inr (err, ctx1, w1)))"

definition batch ::
  "sensor_ids \<Rightarrow> ('s, 'e) sensors_poll_context_t \<Rightarrow> world \<Rightarrow> int \<Rightarrow> int \<Rightarrow> int64_t \<Rightarrow>
   int64_t \<Rightarrow> fault + (int \<times> ('s, 'e) sensors_poll_context_t \<times> world)" where
  "batch ids ctx w handle flags ns timeout = setDelay ids ctx w handle ns"

definition flush ::
  "('s, 'e) sensors_poll_context_t \<Rightarrow> world \<Rightarrow> int \<Rightarrow>
   fault + (int \<times> ('s, 'e) sensors_poll_context_t \<times> world)" where
  "flush ctx w handle =
     (case mSensors ctx ! accelgyromag of
        None \<Rightarrow> Inl NullDereference
      | Some sensor \<Rightarrow>
          (let (err, self') = drv_flush sensor (self sensor) handle;
               ctx1 = ctx\<lparr>mSensors :=
                        (mSensors ctx)[accelgyromag := Some (sensor\<lparr>self := self'\<rparr>)]\<rparr>;
               w1 = log (DrvFlush accelgyromag handle) w
           in Inr (err, ctx1, w1)))"

subsection \<open>\<open>pollEvents\<close>\<close>

text \<open>
  The wait loop. The timeout is the source's \<open>nbEvents ? 0 : -1\<close>. The loop leaves with
  the successful answer, returns \<open>-errno\<close> on a failure other than \<open>EINTR\<close>, and calls
  \<open>poll\<close> again on \<open>EINTR\<close>. \<open>None\<close>: the script is used up, \<open>poll\<close> does not return.
\<close>

fun poll_loop ::
  "int \<Rightarrow> poll_result list \<Rightarrow> ext_call list \<Rightarrow>
   ((int + poll_result) \<times> poll_result list \<times> ext_call list) option" where
  "poll_loop nbEvents [] tr = None"
| "poll_loop nbEvents (r # rs) tr =
     (let tr' = tr @ [SysPoll (if nbEvents \<noteq> 0 then 0 else - 1) (p_ret r)] in
      if p_ret r \<ge> 0 then Some (Inr r, rs, tr')
      else if p_errno r = EINTR then poll_loop nbEvents rs tr'
      else Some (Inl (- p_errno r), rs, tr'))"

text \<open>An answer of \<open>poll\<close> after which the loop calls it again.\<close>

definition retried :: "poll_result \<Rightarrow> bool" where
  "retried r = (p_ret r < 0 \<and> p_errno r = EINTR)"

text \<open>A successful \<open>poll\<close> writes \<open>revents\<close> in each of the \<open>numFds\<close> entries of the array.\<close>

definition poll_writes :: "pollfd list \<Rightarrow> 16 word list \<Rightarrow> pollfd list" where
  "poll_writes fds revs = map (\<lambda>i. (fds ! i)\<lparr>revents := revs ! i\<rparr>) [0..<numFds]"

text \<open>
  The caller's array \<open>data\<close> is a map from offsets (relative to the pointer the caller
  passed) to records; \<open>f_data\<close> is the offset the local pointer \<open>data\<close> has reached.
\<close>

definition store :: "(int \<rightharpoonup> 'e) \<Rightarrow> int \<Rightarrow> 'e list \<Rightarrow> (int \<rightharpoonup> 'e)" where
  "store buf off evs =
     (\<lambda>k. if off \<le> k \<and> k < off + int (length evs) then Some (evs ! nat (k - off)) else buf k)"

record ('s, 'e) frame =
  f_ctx :: "('s, 'e) sensors_poll_context_t"
  f_world :: world
  f_count :: int
  f_nbEvents :: int
  f_data :: int
  f_buf :: "int \<rightharpoonup> 'e"

text \<open>The body of the \<open>if\<close> in the drain loop: \<open>sensor->readEvents(data, count)\<close> and the
  four updates.\<close>

definition drain_read ::
  "nat \<Rightarrow> ('s, 'e) SensorBase option \<Rightarrow> ('s, 'e) frame \<Rightarrow> fault + ('s, 'e) frame" where
  "drain_read i sensor fr =
     (case sensor of
        None \<Rightarrow> Inl NullDereference
      | Some s \<Rightarrow>
          (let ((nb, evs), self') = drv_readEvents s (self s) (f_count fr);
               ctx = f_ctx fr
           in Inr (fr\<lparr>f_ctx := ctx\<lparr>mSensors := (mSensors ctx)[i := Some (s\<lparr>self := self'\<rparr>)],
                                   mPollFds := (mPollFds ctx)[i := (mPollFds ctx ! i)\<lparr>revents := 0\<rparr>]\<rparr>,
                       f_world := log (DrvReadEvents i (f_data fr) (f_count fr) nb) (f_world fr),
                       f_count := f_count fr - nb,
                       f_nbEvents := f_nbEvents fr + nb,
                       f_data := f_data fr + nb,
                       f_buf := store (f_buf fr) (f_data fr) evs\<rparr>)))"

text \<open>One iteration: \<open>(mPollFds[i].revents & POLLIN) || (sensor->hasPendingEvents())\<close>; the
  right operand is evaluated only when the left one is zero.\<close>

definition drain_step :: "nat \<Rightarrow> ('s, 'e) frame \<Rightarrow> fault + ('s, 'e) frame" where
  "drain_step i fr =
     (let sensor = mSensors (f_ctx fr) ! i in
      if revents (mPollFds (f_ctx fr) ! i) AND POLLIN \<noteq> 0 then drain_read i sensor fr
      else case sensor of
        None \<Rightarrow> Inl NullDereference
      | Some s \<Rightarrow>
          (let fr1 = fr\<lparr>f_world := log (DrvHasPendingEvents i) (f_world fr)\<rparr> in
           if drv_hasPendingEvents s (self s) then drain_read i sensor fr1 else Inr fr1))"

text \<open>\<open>for (int i=0 ; count && i<numSensorDrivers ; i++)\<close>\<close>

function drain_loop :: "nat \<Rightarrow> ('s, 'e) frame \<Rightarrow> fault + ('s, 'e) frame" where
  "drain_loop i fr =
     (if f_count fr \<noteq> 0 \<and> i < numSensorDrivers
      then (case drain_step i fr of Inl f \<Rightarrow> Inl f | Inr fr' \<Rightarrow> drain_loop (Suc i) fr')
      else Inr fr)"
  by pat_completeness auto
termination
  by (relation "measure (\<lambda>(i, fr). numSensorDrivers - i)") auto

text \<open>The wake pipe: one byte is read when its entry is readable; the byte is only
  compared for a log message.\<close>

definition drain_wake :: "('s, 'e) frame \<Rightarrow> ('s, 'e) frame" where
  "drain_wake fr =
     (let ctx = f_ctx fr in
      if revents (mPollFds ctx ! wake) AND POLLIN \<noteq> 0
      then fr\<lparr>f_world := log (SysRead (fd (mPollFds ctx ! wake)) 1) (f_world fr),
              f_ctx := ctx\<lparr>mPollFds := (mPollFds ctx)[wake := (mPollFds ctx ! wake)\<lparr>revents := 0\<rparr>]\<rparr>\<rparr>
      else fr)"

text \<open>
  \<open>pollEvents(data, count)\<close>. The result is \<open>None\<close> when \<open>poll\<close> never returns, a fault
  when a null driver pointer is dereferenced, and otherwise the returned \<open>int\<close> with the
  context, the environment and the caller's array after the call.
\<close>

definition pollEvents ::
  "('s, 'e) sensors_poll_context_t \<Rightarrow> world \<Rightarrow> (int \<rightharpoonup> 'e) \<Rightarrow> int \<Rightarrow>
   (fault + (int \<times> ('s, 'e) sensors_poll_context_t \<times> world \<times> (int \<rightharpoonup> 'e))) option" where
  "pollEvents ctx w data count =
     (case poll_loop 0 (poll_script w) (trace w) of
        None \<Rightarrow> None
      | Some (Inl e, rs, tr) \<Rightarrow> Some (Inr (e, ctx, \<lparr>poll_script = rs, trace = tr\<rparr>, data))
      | Some (Inr r, rs, tr) \<Rightarrow>
          (case drain_loop 0
                  \<lparr>f_ctx = ctx\<lparr>mPollFds := poll_writes (mPollFds ctx) (p_revents r)\<rparr>,
                   f_world = \<lparr>poll_script = rs, trace = tr\<rparr>,
                   f_count = count, f_nbEvents = 0, f_data = 0, f_buf = data\<rparr> of
             Inl f \<Rightarrow> Some (Inl f)
           | Inr fr \<Rightarrow>
               (let fr' = drain_wake fr
                in Some (Inr (f_nbEvents fr', f_ctx fr', f_world fr', f_buf fr')))))"

subsection \<open>Reading a trace\<close>

text \<open>The calls a step added to the trace.\<close>

definition new_calls :: "world \<Rightarrow> world \<Rightarrow> ext_call list" where
  "new_calls w w' = drop (length (trace w)) (trace w')"

text \<open>The bytes handed to \<open>write\<close> on one descriptor.\<close>

fun written_to :: "int \<Rightarrow> ext_call list \<Rightarrow> char list" where
  "written_to d [] = []"
| "written_to d (SysWrite d' bs # cs) = (if d' = d then bs @ written_to d cs else written_to d cs)"
| "written_to d (c # cs) = written_to d cs"

fun is_write :: "ext_call \<Rightarrow> bool" where
  "is_write (SysWrite d bs) = True"
| "is_write c = False"

fun is_driver_call :: "ext_call \<Rightarrow> bool" where
  "is_driver_call (SysPoll t r) = False"
| "is_driver_call (SysWrite d bs) = False"
| "is_driver_call (SysRead d n) = False"
| "is_driver_call c = True"

fun is_drain_call :: "ext_call \<Rightarrow> bool" where
  "is_drain_call (DrvReadEvents i off c nb) = True"
| "is_drain_call c = False"

fun is_wait :: "ext_call \<Rightarrow> bool" where
  "is_wait (SysPoll t r) = True"
| "is_wait c = False"

fun is_successful_wait :: "ext_call \<Rightarrow> bool" where
  "is_successful_wait (SysPoll t r) = (0 \<le> r)"
| "is_successful_wait c = False"

text \<open>The first \<open>n\<close> cells of the caller's array.\<close>

definition buffer_prefix :: "(int \<rightharpoonup> 'e) \<Rightarrow> int \<Rightarrow> 'e option list" where
  "buffer_prefix buf n = map (\<lambda>k. buf (int k)) [0..<nat n]"

text \<open>
  Capacity, read off a trace: \<open>remaining\<close> is the capacity left; a driver is asked
  (\<open>hasPendingEvents\<close>) or drained (\<open>readEvents\<close>) only while it is not zero, and is
  handed exactly the capacity left, at an offset inside the caller's array.
\<close>

fun drains_within :: "int \<Rightarrow> int \<Rightarrow> ext_call list \<Rightarrow> bool" where
  "drains_within capacity remaining [] = True"
| "drains_within capacity remaining (DrvHasPendingEvents i # cs) =
     (remaining \<noteq> 0 \<and> drains_within capacity remaining cs)"
| "drains_within capacity remaining (DrvReadEvents i off c nb # cs) =
     (remaining \<noteq> 0 \<and> c = remaining \<and> 0 \<le> off \<and> off + c = capacity \<and>
      drains_within capacity (remaining - nb) cs)"
| "drains_within capacity remaining (c # cs) = drains_within capacity remaining cs"

text \<open>
  What the file assumes of a driver's \<open>readEvents\<close>: given a positive capacity it
  stores as many records as it returns, and no more than the capacity.
\<close>

definition readEvents_bounded :: "('s, 'e) SensorBase \<Rightarrow> bool" where
  "readEvents_bounded sensor =
     (\<forall>s c. 0 < c \<longrightarrow>
        (case drv_readEvents sensor s c of
           ((nb, evs), s') \<Rightarrow> 0 \<le> nb \<and> nb \<le> c \<and> int (length evs) = nb))"

subsection \<open>Concrete instances for running the model\<close>

text \<open>
  Sample values for the ids (any pairwise different values would do), and a driver
  that keeps a queue of records: \<open>readEvents\<close> hands out the oldest records, at most
  \<open>count\<close> of them; \<open>setEnable\<close> returns a fixed code.
\<close>

definition example_ids :: sensor_ids where
  "example_ids = \<lparr>ID_A = 0, ID_L = 1, ID_DR = 2, ID_P = 3, ID_FU = 4, ID_FD = 5,
                  ID_S = 6, ID_CA = 7, ID_A2 = 8, ID_M = 9\<rparr>"

definition fifo_sensor :: "int \<Rightarrow> int \<Rightarrow> nat list \<Rightarrow> (nat list, nat) SensorBase" where
  "fifo_sensor d enable_code q =
     \<lparr>drv_getFd = (\<lambda>s. d),
      drv_setEnable = (\<lambda>s h e. (enable_code, s)),
      drv_setDelay = (\<lambda>s h ns. (0, s)),
      drv_hasPendingEvents = (\<lambda>s. s \<noteq> []),
      drv_readEvents = (\<lambda>s c. ((int (length (take (nat c) s)), take (nat c) s), drop (nat c) s)),
      drv_flush = (\<lambda>s h. (0, s)),
      self = q\<rparr>"

definition example_uninit :: "pollfd list" where
  "example_uninit = replicate 3 \<lparr>fd = - 1, events = 0, revents = 0\<rparr>"

text \<open>Both drivers allocated: the hub holds the records 10, 11, 12, the magnetometer 20, 21.\<close>

definition example_ctx :: "(nat list, nat) sensors_poll_context_t" where
  "example_ctx =
     new_sensors_poll_context_t (Some (fifo_sensor 5 0 [10, 11, 12]))
       (Some (fifo_sensor 6 0 [20, 21])) (0, 7, 8) example_uninit"

text \<open>The allocation of the magnetometer driver failed.\<close>

definition example_ctx_no_akm :: "(nat list, nat) sensors_poll_context_t" where
  "example_ctx_no_akm =
     new_sensors_poll_context_t (Some (fifo_sensor 5 0 [10, 11, 12])) None (0, 7, 8)
       example_uninit"


definition failing_sensor :: "int \<Rightarrow> int \<Rightarrow> (nat list, nat) SensorBase" where
  "failing_sensor d code =
     \<lparr>drv_getFd = (\<lambda>s. d),
      drv_setEnable = (\<lambda>s h e. (0, s)),
      drv_setDelay = (\<lambda>s h ns. (0, s)),
      drv_hasPendingEvents = (\<lambda>s. False),
      drv_readEvents = (\<lambda>s c. ((code, []), s)),
      drv_flush = (\<lambda>s h. (0, s)),
      self = []\<rparr>"


definition failing_ctx :: "(nat list, nat) sensors_poll_context_t" where
  "failing_ctx =
     new_sensors_poll_context_t (Some (failing_sensor 5 (- 5)))
       (Some (fifo_sensor 6 0 [20, 21, 22, 23, 24, 25, 26, 27, 28, 29, 30, 31, 32, 33, 34, 35]))
       (0, 7, 8) example_uninit"

definition poll_ok :: "16 word list \<Rightarrow> poll_result" where
  "poll_ok revs = \<lparr>p_ret = int (length (filter (\<lambda>r. r \<noteq> 0) revs)), p_errno = 0, p_revents = revs\<rparr>"

definition poll_eintr :: poll_result where
  "poll_eintr = \<lparr>p_ret = - 1, p_errno = EINTR, p_revents = []\<rparr>"

definition example_world :: "poll_result list \<Rightarrow> world" where
  "example_world script = \<lparr>poll_script = script, trace = []\<rparr>"

section \<open>Properties\<close>

subsection \<open>Traces\<close>

lemma new_calls_same [simp]: "new_calls w w = []"
  by (simp add: new_calls_def)

lemma new_calls_log [simp]: "new_calls w (log c w) = [c]"
  by (simp add: new_calls_def log_def)

lemma new_calls_log2 [simp]: "new_calls w (log c2 (log c1 w)) = [c1, c2]"
  by (simp add: new_calls_def log_def)

subsection \<open>The dispatch table\<close>

lemma unrecognized_negative:
  "h \<notin> set (recognized_ids ids) \<Longrightarrow> handleToDriver ids h < 0"
  by (simp add: handleToDriver_def recognized_ids_def hub_ids_def EINVAL_def)

text \<open>
  C4. \<open>handleToDriver\<close> partitions the handles: the magnetometer id \<open>ID_M\<close>, and only it,
  resolves to the AKM driver; the nine other recognized ids, and only they, resolve to
  the hub driver; every other handle, and only those, yields \<open>-EINVAL\<close>; so each
  recognized id has exactly one driver index. The ids are pairwise different, as the
  labels of a \<open>switch\<close> are.
\<close>

theorem handleToDriver_partition:
  assumes "ids_distinct ids"
  shows "(handleToDriver ids h = int akm \<longleftrightarrow> h = ID_M ids) \<and>
         (handleToDriver ids h = int accelgyromag \<longleftrightarrow> h \<in> set (hub_ids ids)) \<and>
         (handleToDriver ids h = - EINVAL \<longleftrightarrow> h \<notin> set (recognized_ids ids)) \<and>
         (h \<in> set (recognized_ids ids) \<longrightarrow>
            (\<exists>!d. d < numSensorDrivers \<and> handleToDriver ids h = int d))"
proof -
  have m: "ID_M ids \<notin> set (hub_ids ids)"
    using assms by (simp add: ids_distinct_def recognized_ids_def)
  have a: "(handleToDriver ids h = int akm) = (h = ID_M ids)"
    using m by (auto simp: handleToDriver_def hub_ids_def akm_def accelgyromag_def EINVAL_def)
  have b: "(handleToDriver ids h = int accelgyromag) = (h \<in> set (hub_ids ids))"
    by (auto simp: handleToDriver_def hub_ids_def akm_def accelgyromag_def EINVAL_def)
  have c: "(handleToDriver ids h = - EINVAL) = (h \<notin> set (recognized_ids ids))"
    by (auto simp: handleToDriver_def recognized_ids_def hub_ids_def akm_def accelgyromag_def
        EINVAL_def)
  have d: "\<exists>!d. d < numSensorDrivers \<and> handleToDriver ids h = int d"
    if "h \<in> set (recognized_ids ids)"
  proof -
    from that c have "handleToDriver ids h \<noteq> - EINVAL" by simp
    then have "handleToDriver ids h = int accelgyromag \<or> handleToDriver ids h = int akm"
      by (auto simp: handleToDriver_def split: if_splits)
    then show ?thesis
      by (auto simp: numSensorDrivers_def accelgyromag_def akm_def)
  qed
  from a b c d show ?thesis by blast
qed

theorem handleToDriver_partition_witness:
  "ids_distinct example_ids \<and> handleToDriver example_ids 9 = int akm \<and>
   handleToDriver example_ids 3 = int accelgyromag \<and>
   handleToDriver example_ids 10 = - EINVAL"
proof -
  have h: "ids_distinct example_ids"
    by (simp add: ids_distinct_def recognized_ids_def hub_ids_def example_ids_def)
  show ?thesis
    using h handleToDriver_partition [OF h, of 9] handleToDriver_partition [OF h, of 3]
      handleToDriver_partition [OF h, of 10]
    by (simp add: recognized_ids_def hub_ids_def example_ids_def)
qed

subsection \<open>Control calls\<close>

text \<open>
  C10. For a handle that is none of the recognized ids, \<open>activate\<close> and \<open>setDelay\<close> both
  return \<open>-EINVAL\<close> and leave the context and the environment as they were: no driver
  object changes, and the trace gains no call, so no driver method is invoked and no
  byte goes to the wake pipe.
\<close>

theorem unrecognized_id_rejected:
  assumes "h \<notin> set (recognized_ids ids)"
  shows "activate ids ctx w h enabled = Inr (- EINVAL, ctx, w) \<and>
         setDelay ids ctx w h ns = Inr (- EINVAL, ctx, w)"
  using unrecognized_negative [OF assms] by (simp add: activate_def setDelay_def)

theorem unrecognized_id_rejected_witness:
  "10 \<notin> set (recognized_ids example_ids) \<and>
   activate example_ids example_ctx (example_world []) 10 1
     = Inr (- 22, example_ctx, example_world []) \<and>
   setDelay example_ids example_ctx (example_world []) 10 5
     = Inr (- 22, example_ctx, example_world [])"
proof -
  have h: "10 \<notin> set (recognized_ids example_ids)"
    by (simp add: recognized_ids_def hub_ids_def example_ids_def)
  show ?thesis
    using h unrecognized_id_rejected [OF h, of example_ctx "example_world []" 1 5]
    by (simp add: EINVAL_def)
qed

text \<open>
  C3. A call of \<open>activate\<close> that is routed to no driver or to an allocated one returns,
  and returns \<open>-EINVAL\<close> or what the driver's \<open>setEnable\<close> returned. The only \<open>write\<close> it
  can issue is one write of the single byte \<open>'W'\<close> on the write end of the wake pipe, and
  it issues it exactly when the handle is \<open>ID_M\<close>, \<open>enabled\<close> is not zero and \<open>setEnable\<close>
  returned zero; otherwise it writes nothing. (The result of \<open>write\<close> is only logged by
  the source, so the model records the call.)
\<close>

theorem activate_wake_byte:
  assumes "handleToDriver ids h < 0 \<or> mSensors ctx ! nat (handleToDriver ids h) = Some s"
  shows "\<exists>err ctx' w'. activate ids ctx w h enabled = Inr (err, ctx', w') \<and>
           err = (if handleToDriver ids h < 0 then - EINVAL
                  else fst (drv_setEnable s (self s) h enabled)) \<and>
           filter is_write (new_calls w w') =
             (if h = ID_M ids \<and> enabled \<noteq> 0 \<and> fst (drv_setEnable s (self s) h enabled) = 0
              then [SysWrite (mWritePipeFd ctx) [WAKE_MESSAGE]] else []) \<and>
           written_to (mWritePipeFd ctx) (new_calls w w') =
             (if h = ID_M ids \<and> enabled \<noteq> 0 \<and> fst (drv_setEnable s (self s) h enabled) = 0
              then [WAKE_MESSAGE] else [])"
proof (cases "handleToDriver ids h < 0")
  case True
  then have "h \<noteq> ID_M ids"
    by (auto simp: handleToDriver_def akm_def accelgyromag_def EINVAL_def split: if_splits)
  with True show ?thesis by (simp add: activate_def)
next
  case False
  with assms have "mSensors ctx ! nat (handleToDriver ids h) = Some s" by simp
  with False show ?thesis
    by (simp add: activate_def split_beta Let_def)
qed

theorem activate_wake_byte_witness:
  "(handleToDriver example_ids 9 < 0 \<or>
      mSensors example_ctx ! nat (handleToDriver example_ids 9) = Some (fifo_sensor 6 0 [20, 21])) \<and>
   (\<exists>ctx' w'. activate example_ids example_ctx (example_world []) 9 1 = Inr (0, ctx', w') \<and>
      filter is_write (new_calls (example_world []) w') = [SysWrite 8 ''W''] \<and>
      written_to 8 (new_calls (example_world []) w') = ''W'')"
proof -
  have r: "handleToDriver example_ids 9 = 1"
    by (simp add: handleToDriver_def example_ids_def akm_def)
  have h: "handleToDriver example_ids 9 < 0 \<or>
      mSensors example_ctx ! nat (handleToDriver example_ids 9) = Some (fifo_sensor 6 0 [20, 21])"
    by (simp add: r example_ctx_def new_sensors_poll_context_t_def)
  have p: "mWritePipeFd example_ctx = 8"
    by (simp add: example_ctx_def new_sensors_poll_context_t_def)
  have m: "ID_M example_ids = 9"
    by (simp add: example_ids_def)
  have e: "drv_setEnable (fifo_sensor 6 0 [20, 21]) (self (fifo_sensor 6 0 [20, 21])) 9 1
             = (0, [20, 21])"
    by (simp add: fifo_sensor_def)
  show ?thesis
    using h activate_wake_byte [OF h, of "example_world []" 1]
    by (simp add: r p m e WAKE_MESSAGE_def)
qed

text \<open>
  C8. \<open>batch\<close> is \<open>setDelay\<close> on the handle and the interval: the same returned value,
  the same context and the same environment (trace included) afterwards, whatever the
  flags and the timeout are.
\<close>

theorem batch_is_setDelay:
  "batch ids ctx w handle flags ns timeout = setDelay ids ctx w handle ns"
  by (simp add: batch_def)

text \<open>
  C9. With the hub driver allocated, \<open>flush\<close> of any handle calls the \<open>flush\<close> of the
  driver at index \<open>accelgyromag\<close> with that handle and nothing else, returns what it
  returned, and leaves the AKM driver's slot as it was.
\<close>

theorem flush_goes_to_hub:
  assumes "mSensors ctx ! accelgyromag = Some hub"
  shows "\<exists>ctx' w'. flush ctx w h = Inr (fst (drv_flush hub (self hub) h), ctx', w') \<and>
           new_calls w w' = [DrvFlush accelgyromag h] \<and>
           mSensors ctx' ! akm = mSensors ctx ! akm"
  using assms
  by (simp add: flush_def split_beta Let_def accelgyromag_def akm_def)

theorem flush_goes_to_hub_witness:
  "mSensors example_ctx ! accelgyromag = Some (fifo_sensor 5 0 [10, 11, 12]) \<and>
   (\<exists>ctx' w'. flush example_ctx (example_world []) (ID_M example_ids) = Inr (0, ctx', w') \<and>
      new_calls (example_world []) w' = [DrvFlush accelgyromag 9] \<and>
      mSensors ctx' ! akm = Some (fifo_sensor 6 0 [20, 21]))"
proof -
  have h: "mSensors example_ctx ! accelgyromag = Some (fifo_sensor 5 0 [10, 11, 12])"
    by (simp add: example_ctx_def new_sensors_poll_context_t_def accelgyromag_def)
  have k: "mSensors example_ctx ! akm = Some (fifo_sensor 6 0 [20, 21])"
    by (simp add: example_ctx_def new_sensors_poll_context_t_def akm_def)
  show ?thesis
    using h k flush_goes_to_hub [OF h, of "example_world []" "ID_M example_ids"]
    by (simp add: fifo_sensor_def example_ids_def)
qed

subsection \<open>\<open>pollEvents\<close>: the wait loop and the drain loop\<close>

declare drain_loop.simps [simp del]

lemma drain_loop_no_capacity: "f_count fr = 0 \<Longrightarrow> drain_loop i fr = Inr fr"
  by (subst drain_loop.simps) simp

lemma drain_loop_end: "numSensorDrivers \<le> i \<Longrightarrow> drain_loop i fr = Inr fr"
  by (subst drain_loop.simps) simp

lemma drain_loop_step:
  "f_count fr \<noteq> 0 \<Longrightarrow> i < numSensorDrivers \<Longrightarrow>
   drain_loop i fr = (case drain_step i fr of Inl f \<Rightarrow> Inl f | Inr fr' \<Rightarrow> drain_loop (Suc i) fr')"
  by (subst drain_loop.simps) simp

lemma poll_loop_retries:
  "list_all retried pre \<Longrightarrow>
   poll_loop nb (pre @ rs) tr =
     poll_loop nb rs (tr @ map (\<lambda>r. SysPoll (if nb \<noteq> 0 then 0 else - 1) (p_ret r)) pre)"
  by (induction pre arbitrary: tr) (auto simp: Let_def retried_def)

lemma poll_loop_answer:
  assumes "list_all retried pre" and "\<not> retried r"
  shows "poll_loop 0 (pre @ r # rest) tr =
           Some (if 0 \<le> p_ret r then Inr r else Inl (- p_errno r), rest,
                 tr @ map (\<lambda>r. SysPoll (- 1) (p_ret r)) pre @ [SysPoll (- 1) (p_ret r)])"
  using assms(2) by (auto simp: poll_loop_retries [OF assms(1)] Let_def retried_def)

lemma new_calls_eq: "trace w' = trace w @ cs \<Longrightarrow> new_calls w w' = cs"
  by (simp add: new_calls_def)

lemma drain_wake_calls:
  "\<exists>cs. trace (f_world (drain_wake fr)) = trace (f_world fr) @ cs \<and>
        list_all (\<lambda>c. \<not> is_wait c \<and> \<not> is_driver_call c) cs"
  by (simp add: drain_wake_def Let_def log_def)

lemma drain_wake_fields [simp]:
  "f_nbEvents (drain_wake fr) = f_nbEvents fr"
  "f_buf (drain_wake fr) = f_buf fr"
  "f_count (drain_wake fr) = f_count fr"
  "mSensors (f_ctx (drain_wake fr)) = mSensors (f_ctx fr)"
  "poll_script (f_world (drain_wake fr)) = poll_script (f_world fr)"
  by (simp_all add: drain_wake_def Let_def log_def)

text \<open>The shape of a call whose wait succeeds.\<close>

lemma pollEvents_shape:
  assumes pre: "list_all retried pre"
    and script: "poll_script w = pre @ r # rest"
    and ok: "0 \<le> p_ret r"
    and fr0: "fr0 = \<lparr>f_ctx = ctx\<lparr>mPollFds := poll_writes (mPollFds ctx) (p_revents r)\<rparr>,
                     f_world = \<lparr>poll_script = rest, trace = tr\<rparr>,
                     f_count = count, f_nbEvents = 0, f_data = 0, f_buf = data\<rparr>"
    and tr: "tr = trace w @ map (\<lambda>r. SysPoll (- 1) (p_ret r)) pre @ [SysPoll (- 1) (p_ret r)]"
    and dl: "drain_loop 0 fr0 = Inr fr"
    and cs1: "trace (f_world fr) = trace (f_world fr0) @ cs1"
  shows "\<exists>ctx' w' cs2. pollEvents ctx w data count = Some (Inr (f_nbEvents fr, ctx', w', f_buf fr)) \<and>
           new_calls w w' = map (\<lambda>r. SysPoll (- 1) (p_ret r)) pre @ SysPoll (- 1) (p_ret r) # cs1 @ cs2 \<and>
           list_all (\<lambda>c. \<not> is_wait c \<and> \<not> is_driver_call c) cs2 \<and>
           mSensors ctx' = mSensors (f_ctx fr)"
proof -
  have nr: "\<not> retried r" using ok by (simp add: retried_def)
  have pl: "poll_loop 0 (poll_script w) (trace w) = Some (Inr r, rest, tr)"
    unfolding script tr using poll_loop_answer [OF pre nr, of rest "trace w"] ok by simp
  have res: "pollEvents ctx w data count =
      Some (Inr (f_nbEvents fr, f_ctx (drain_wake fr), f_world (drain_wake fr), f_buf fr))"
    unfolding pollEvents_def pl using dl by (simp add: fr0 Let_def)
  obtain cs2 where cs2: "trace (f_world (drain_wake fr)) = trace (f_world fr) @ cs2"
      "list_all (\<lambda>c. \<not> is_wait c \<and> \<not> is_driver_call c) cs2"
    using drain_wake_calls [of fr] by blast
  have "trace (f_world (drain_wake fr)) =
          trace w @ (map (\<lambda>r. SysPoll (- 1) (p_ret r)) pre @ SysPoll (- 1) (p_ret r) # cs1 @ cs2)"
    by (simp add: cs2(1) cs1 fr0 tr)
  then have nc: "new_calls w (f_world (drain_wake fr)) =
      map (\<lambda>r. SysPoll (- 1) (p_ret r)) pre @ SysPoll (- 1) (p_ret r) # cs1 @ cs2"
    by (rule new_calls_eq)
  show ?thesis
    using res nc cs2(2) by (intro exI [of _ "f_ctx (drain_wake fr)"]
        exI [of _ "f_world (drain_wake fr)"] exI [of _ cs2]) simp
qed

lemma failed_waits:
  "list_all retried pre \<Longrightarrow>
   filter is_successful_wait (map (\<lambda>r. SysPoll t (p_ret r)) pre) = []"
  by (induction pre) (auto simp: retried_def)

lemma waits_no_driver_call:
  "filter is_driver_call (map (\<lambda>r. SysPoll t (p_ret r)) pre) = []"
  by (induction pre) auto

lemma quiet_no_wait:
  "list_all (\<lambda>c. \<not> is_wait c \<and> \<not> is_driver_call c) cs \<Longrightarrow> filter is_successful_wait cs = []"
  by (induction cs) (auto elim: is_successful_wait.elims)

lemma quiet_no_driver_call:
  "list_all (\<lambda>c. \<not> is_wait c \<and> \<not> is_driver_call c) cs \<Longrightarrow> filter is_driver_call cs = []"
  by (induction cs) auto

lemma drain_step_returns:
  "mSensors (f_ctx fr) ! i = Some s \<Longrightarrow> \<exists>fr'. drain_step i fr = Inr fr'"
  by (simp add: drain_step_def drain_read_def Let_def split_beta)

lemma drain_step_slots:
  "drain_step i fr = Inr fr' \<Longrightarrow> j \<noteq> i \<Longrightarrow>
   mSensors (f_ctx fr') ! j = mSensors (f_ctx fr) ! j"
  by (auto simp: drain_step_def drain_read_def Let_def split_beta
      split: option.splits if_splits)

lemma drain_step_trace:
  "drain_step i fr = Inr fr' \<Longrightarrow>
   \<exists>cs. trace (f_world fr') = trace (f_world fr) @ cs \<and> list_all (\<lambda>c. \<not> is_wait c) cs"
  by (auto simp: drain_step_def drain_read_def Let_def split_beta log_def
      split: option.splits if_splits)

lemma drain_loop_returns:
  "\<forall>j. i \<le> j \<and> j < numSensorDrivers \<longrightarrow> mSensors (f_ctx fr) ! j \<noteq> None \<Longrightarrow>
   \<exists>fr'. drain_loop i fr = Inr fr'"
proof (induction i fr rule: drain_loop.induct)
  case (1 i fr)
  show ?case
  proof (cases "f_count fr \<noteq> 0 \<and> i < numSensorDrivers")
    case False
    then show ?thesis by (auto simp: drain_loop_no_capacity drain_loop_end)
  next
    case True
    then obtain s where "mSensors (f_ctx fr) ! i = Some s"
      using "1.prems" by auto
    then obtain fr1 where st: "drain_step i fr = Inr fr1"
      using drain_step_returns by blast
    have "\<forall>j. Suc i \<le> j \<and> j < numSensorDrivers \<longrightarrow> mSensors (f_ctx fr1) ! j \<noteq> None"
      using "1.prems" drain_step_slots [OF st] by auto
    from "1.IH" [OF True st this] obtain fr' where "drain_loop (Suc i) fr1 = Inr fr'" ..
    then show ?thesis using True st by (simp add: drain_loop_step)
  qed
qed

lemma drain_loop_trace:
  "drain_loop i fr = Inr fr' \<Longrightarrow>
   \<exists>cs. trace (f_world fr') = trace (f_world fr) @ cs \<and> list_all (\<lambda>c. \<not> is_wait c) cs"
proof (induction i fr rule: drain_loop.induct)
  case (1 i fr)
  show ?case
  proof (cases "f_count fr \<noteq> 0 \<and> i < numSensorDrivers")
    case False
    then have "fr' = fr" using "1.prems" by (auto simp: drain_loop_no_capacity drain_loop_end)
    then show ?thesis by simp
  next
    case True
    then obtain fr1 where st: "drain_step i fr = Inr fr1" and dl: "drain_loop (Suc i) fr1 = Inr fr'"
      using "1.prems" by (auto simp: drain_loop_step split: sum.splits)
    from drain_step_trace [OF st] obtain cs1 where
      cs1: "trace (f_world fr1) = trace (f_world fr) @ cs1" "list_all (\<lambda>c. \<not> is_wait c) cs1"
      by blast
    from "1.IH" [OF True st dl] obtain cs2 where
      cs2: "trace (f_world fr') = trace (f_world fr1) @ cs2" "list_all (\<lambda>c. \<not> is_wait c) cs2"
      by blast
    show ?thesis
      using cs1 cs2 by (intro exI [of _ "cs1 @ cs2"]) simp
  qed
qed

lemma both_live:
  assumes "mSensors ctx ! accelgyromag = Some hub" and "mSensors ctx ! akm = Some mag"
  shows "\<forall>j. 0 \<le> j \<and> j < numSensorDrivers \<longrightarrow> mSensors ctx ! j \<noteq> None"
proof (intro allI impI)
  fix j assume "0 \<le> j \<and> j < numSensorDrivers"
  then have "j = 0 \<or> j = 1" by (auto simp: numSensorDrivers_def)
  then show "mSensors ctx ! j \<noteq> None"
    using assms by (auto simp: accelgyromag_def akm_def)
qed

lemma pollEvents_fatal:
  assumes pre: "list_all retried pre"
    and script: "poll_script w = pre @ r # rest"
    and bad: "p_ret r < 0" "p_errno r \<noteq> EINTR"
  shows "\<exists>w'. pollEvents ctx w data count = Some (Inr (- p_errno r, ctx, w', data)) \<and>
           new_calls w w' = map (\<lambda>r. SysPoll (- 1) (p_ret r)) pre @ [SysPoll (- 1) (p_ret r)]"
proof -
  have nr: "\<not> retried r" using bad by (simp add: retried_def)
  have pl: "poll_loop 0 (poll_script w) (trace w) =
      Some (Inl (- p_errno r), rest,
            trace w @ map (\<lambda>r. SysPoll (- 1) (p_ret r)) pre @ [SysPoll (- 1) (p_ret r)])"
    unfolding script using poll_loop_answer [OF pre nr, of rest "trace w"] bad by simp
  show ?thesis
    unfolding pollEvents_def pl by (simp add: new_calls_def)
qed

text \<open>
  C7. With a capacity of zero, and a wait that succeeds after any number of \<open>EINTR\<close>
  retries, \<open>pollEvents\<close> returns 0 and leaves the caller's array as it was; exactly
  one of the \<open>poll\<close> calls it made succeeded, and it called no driver method at all
  (neither \<open>readEvents\<close> nor \<open>hasPendingEvents\<close>).
\<close>

theorem zero_capacity_poll:
  assumes "list_all retried pre"
    and "poll_script w = pre @ r # rest"
    and "0 \<le> p_ret r"
  shows "\<exists>ctx' w'. pollEvents ctx w data 0 = Some (Inr (0, ctx', w', data)) \<and>
           length (filter is_successful_wait (new_calls w w')) = 1 \<and>
           filter is_driver_call (new_calls w w') = [] \<and>
           mSensors ctx' = mSensors ctx"
proof -
  define tr where "tr = trace w @ map (\<lambda>r. SysPoll (- 1) (p_ret r)) pre @ [SysPoll (- 1) (p_ret r)]"
  define fr0 where "fr0 = \<lparr>f_ctx = ctx\<lparr>mPollFds := poll_writes (mPollFds ctx) (p_revents r)\<rparr>,
                     f_world = \<lparr>poll_script = rest, trace = tr\<rparr>,
                     f_count = 0, f_nbEvents = 0, f_data = 0, f_buf = data\<rparr>"
  have dl: "drain_loop 0 fr0 = Inr fr0"
    by (rule drain_loop_no_capacity) (simp add: fr0_def)
  have cs1: "trace (f_world fr0) = trace (f_world fr0) @ []" by simp
  from pollEvents_shape [OF assms fr0_def tr_def dl cs1]
  obtain ctx' w' cs2 where
    res: "pollEvents ctx w data 0 = Some (Inr (f_nbEvents fr0, ctx', w', f_buf fr0))"
    and nc: "new_calls w w' = map (\<lambda>r. SysPoll (- 1) (p_ret r)) pre @ SysPoll (- 1) (p_ret r) # [] @ cs2"
    and q: "list_all (\<lambda>c. \<not> is_wait c \<and> \<not> is_driver_call c) cs2"
    and ms: "mSensors ctx' = mSensors (f_ctx fr0)"
    by blast
  have a: "pollEvents ctx w data 0 = Some (Inr (0, ctx', w', data))"
    using res by (simp add: fr0_def)
  have b: "length (filter is_successful_wait (new_calls w w')) = 1"
    by (simp add: nc failed_waits [OF assms(1)] quiet_no_wait [OF q] assms(3))
  have c: "filter is_driver_call (new_calls w w') = []"
    by (simp add: nc waits_no_driver_call quiet_no_driver_call [OF q])
  have d: "mSensors ctx' = mSensors ctx"
    using ms by (simp add: fr0_def)
  from a b c d show ?thesis by blast
qed

theorem zero_capacity_poll_witness:
  "list_all retried [poll_eintr] \<and> 0 \<le> p_ret (poll_ok [0, 0, 1]) \<and>
   (\<exists>ctx' w'.
      pollEvents example_ctx (example_world [poll_eintr, poll_ok [0, 0, 1]]) Map.empty 0 =
        Some (Inr (0, ctx', w', Map.empty)) \<and>
      length (filter is_successful_wait
        (new_calls (example_world [poll_eintr, poll_ok [0, 0, 1]]) w')) = 1 \<and>
      filter is_driver_call (new_calls (example_world [poll_eintr, poll_ok [0, 0, 1]]) w') = [])"
proof -
  have p: "list_all retried [poll_eintr]"
    by (simp add: retried_def poll_eintr_def)
  have s: "poll_script (example_world [poll_eintr, poll_ok [0, 0, 1]]) =
             [poll_eintr] @ poll_ok [0, 0, 1] # []"
    by (simp add: example_world_def)
  have ok: "0 \<le> p_ret (poll_ok [0, 0, 1])"
    by (simp add: poll_ok_def)
  show ?thesis
    using p ok zero_capacity_poll [OF p s ok, of example_ctx Map.empty]
    by fastforce
qed

subsection \<open>\<open>pollEvents\<close>: capacity\<close>

lemma readEvents_boundedD:
  assumes "readEvents_bounded s" and "0 < c"
  obtains nb evs s' where "drv_readEvents s x c = ((nb, evs), s')"
    and "0 \<le> nb" and "nb \<le> c" and "int (length evs) = nb"
proof -
  obtain nb evs s' where e: "drv_readEvents s x c = ((nb, evs), s')"
    by (metis prod.exhaust)
  from assms have "case drv_readEvents s x c of ((nb, evs), s') \<Rightarrow>
      0 \<le> nb \<and> nb \<le> c \<and> int (length evs) = nb"
    by (simp add: readEvents_bounded_def)
  with e that show thesis by simp
qed

lemma drain_step_counters:
  assumes st: "drain_step i fr = Inr fr'"
    and s: "mSensors (f_ctx fr) ! i = Some s"
    and b: "readEvents_bounded s"
    and c: "0 < f_count fr"
  shows "0 \<le> f_count fr' \<and> f_data fr \<le> f_data fr' \<and>
         f_data fr' + f_count fr' = f_data fr + f_count fr \<and>
         f_nbEvents fr' + f_count fr' = f_nbEvents fr + f_count fr"
proof -
  from readEvents_boundedD [OF b c, of "self s"] obtain nb evs s' where
    "drv_readEvents s (self s) (f_count fr) = ((nb, evs), s')" "0 \<le> nb" "nb \<le> f_count fr"
    by blast
  with st s c show ?thesis
    by (auto simp: drain_step_def drain_read_def Let_def split: if_splits)
qed

lemma drain_step_buffer:
  assumes st: "drain_step i fr = Inr fr'"
    and s: "mSensors (f_ctx fr) ! i = Some s"
    and b: "readEvents_bounded s"
    and c: "0 < f_count fr"
    and k: "k < f_data fr \<or> f_data fr' \<le> k"
  shows "f_buf fr' k = f_buf fr k"
proof -
  from readEvents_boundedD [OF b c, of "self s"] obtain nb evs s' where
    "drv_readEvents s (self s) (f_count fr) = ((nb, evs), s')" "0 \<le> nb" "nb \<le> f_count fr"
    "int (length evs) = nb"
    by blast
  with st s c k show ?thesis
    by (auto simp: drain_step_def drain_read_def Let_def store_def split: if_splits)
qed

lemma drain_step_drains:
  assumes st: "drain_step i fr = Inr fr'"
    and s: "mSensors (f_ctx fr) ! i = Some s"
    and c: "0 < f_count fr"
    and d: "0 \<le> f_data fr"
    and cap: "f_data fr + f_count fr = cap"
  shows "\<exists>cs. trace (f_world fr') = trace (f_world fr) @ cs \<and>
           (\<forall>rest. drains_within cap (f_count fr') rest \<longrightarrow>
                   drains_within cap (f_count fr) (cs @ rest))"
proof -
  obtain nb evs s' where "drv_readEvents s (self s) (f_count fr) = ((nb, evs), s')"
    by (metis prod.exhaust)
  with st s c d cap show ?thesis
    by (auto simp: drain_step_def drain_read_def Let_def log_def split: if_splits)
qed

lemma drain_step_vtable:
  assumes st: "drain_step i fr = Inr fr'"
    and inv: "\<forall>j. i \<le> j \<and> j < numSensorDrivers \<longrightarrow>
               (\<exists>s. mSensors (f_ctx fr) ! j = Some s \<and> readEvents_bounded s)"
  shows "\<forall>j. Suc i \<le> j \<and> j < numSensorDrivers \<longrightarrow>
               (\<exists>s. mSensors (f_ctx fr') ! j = Some s \<and> readEvents_bounded s)"
  using inv drain_step_slots [OF st] by auto

lemma drain_loop_capacity:
  assumes "drain_loop i fr = Inr fr'"
    and "\<forall>j. i \<le> j \<and> j < numSensorDrivers \<longrightarrow>
               (\<exists>s. mSensors (f_ctx fr) ! j = Some s \<and> readEvents_bounded s)"
    and "0 \<le> f_count fr" and "0 \<le> f_data fr" and "f_data fr + f_count fr = cap"
  shows "0 \<le> f_count fr' \<and> f_data fr \<le> f_data fr' \<and> f_data fr' + f_count fr' = cap \<and>
         f_nbEvents fr' + f_count fr' = f_nbEvents fr + f_count fr \<and>
         (\<forall>k. k < f_data fr \<or> f_data fr' \<le> k \<longrightarrow> f_buf fr' k = f_buf fr k) \<and>
         (\<exists>cs. trace (f_world fr') = trace (f_world fr) @ cs \<and>
            (\<forall>rest. drains_within cap (f_count fr') rest \<longrightarrow>
                    drains_within cap (f_count fr) (cs @ rest)))"
  using assms
proof (induction i fr rule: drain_loop.induct)
  case (1 i fr)
  show ?case
  proof (cases "f_count fr \<noteq> 0 \<and> i < numSensorDrivers")
    case False
    then have "fr' = fr" using "1.prems"(1) by (auto simp: drain_loop_no_capacity drain_loop_end)
    then show ?thesis using "1.prems" by simp
  next
    case True
    then obtain fr1 where st: "drain_step i fr = Inr fr1" and dl: "drain_loop (Suc i) fr1 = Inr fr'"
      using "1.prems"(1) by (auto simp: drain_loop_step split: sum.splits)
    from True "1.prems"(2) obtain s where
      s: "mSensors (f_ctx fr) ! i = Some s" and b: "readEvents_bounded s"
      by auto
    have c: "0 < f_count fr" using True "1.prems"(3) by simp
    note cnt = drain_step_counters [OF st s b c]
    have inv1: "\<forall>j. Suc i \<le> j \<and> j < numSensorDrivers \<longrightarrow>
               (\<exists>s. mSensors (f_ctx fr1) ! j = Some s \<and> readEvents_bounded s)"
      by (rule drain_step_vtable [OF st "1.prems"(2)])
    have c1: "0 \<le> f_count fr1" and d1: "0 \<le> f_data fr1" and cap1: "f_data fr1 + f_count fr1 = cap"
      using cnt "1.prems"(4,5) by auto
    note ih = "1.IH" [OF True st dl inv1 c1 d1 cap1]
    from drain_step_drains [OF st s c "1.prems"(4,5)] obtain cs1 where
      cs1: "trace (f_world fr1) = trace (f_world fr) @ cs1"
        "\<forall>rest. drains_within cap (f_count fr1) rest \<longrightarrow> drains_within cap (f_count fr) (cs1 @ rest)"
      by blast
    from ih obtain cs2 where
      cs2: "trace (f_world fr') = trace (f_world fr1) @ cs2"
        "\<forall>rest. drains_within cap (f_count fr') rest \<longrightarrow> drains_within cap (f_count fr1) (cs2 @ rest)"
      by blast
    have t: "\<exists>cs. trace (f_world fr') = trace (f_world fr) @ cs \<and>
            (\<forall>rest. drains_within cap (f_count fr') rest \<longrightarrow>
                    drains_within cap (f_count fr) (cs @ rest))"
      using cs1 cs2 by (intro exI [of _ "cs1 @ cs2"]) simp
    have buf: "\<forall>k. k < f_data fr \<or> f_data fr' \<le> k \<longrightarrow> f_buf fr' k = f_buf fr k"
    proof (intro allI impI)
      fix k assume k: "k < f_data fr \<or> f_data fr' \<le> k"
      have le: "f_data fr \<le> f_data fr1" "f_data fr1 \<le> f_data fr'" using cnt ih by auto
      from k le have k1: "k < f_data fr1 \<or> f_data fr' \<le> k" by auto
      from k le have k0: "k < f_data fr \<or> f_data fr1 \<le> k" by auto
      have "f_buf fr' k = f_buf fr1 k" using ih k1 by blast
      also have "\<dots> = f_buf fr k" by (rule drain_step_buffer [OF st s b c k0])
      finally show "f_buf fr' k = f_buf fr k" .
    qed
    have nums: "0 \<le> f_count fr' \<and> f_data fr \<le> f_data fr' \<and> f_data fr' + f_count fr' = cap \<and>
         f_nbEvents fr' + f_count fr' = f_nbEvents fr + f_count fr"
      using cnt ih by auto
    from nums buf t show ?thesis by blast
  qed
qed

lemma both_bounded:
  assumes "mSensors ctx ! accelgyromag = Some hub" and "mSensors ctx ! akm = Some mag"
    and "readEvents_bounded hub" and "readEvents_bounded mag"
  shows "\<forall>j. 0 \<le> j \<and> j < numSensorDrivers \<longrightarrow>
           (\<exists>s. mSensors ctx ! j = Some s \<and> readEvents_bounded s)"
proof (intro allI impI)
  fix j assume "0 \<le> j \<and> j < numSensorDrivers"
  then have "j = 0 \<or> j = 1" by (auto simp: numSensorDrivers_def)
  then show "\<exists>s. mSensors ctx ! j = Some s \<and> readEvents_bounded s"
    using assms by (auto simp: accelgyromag_def akm_def)
qed

lemma drains_within_waits:
  "drains_within cap n (map (\<lambda>r. SysPoll t (p_ret r)) pre @ cs) = drains_within cap n cs"
  by (induction pre) auto

lemma drains_within_quiet:
  "list_all (\<lambda>c. \<not> is_wait c \<and> \<not> is_driver_call c) cs \<Longrightarrow> drains_within cap n cs"
proof (induction cs)
  case Nil
  then show ?case by simp
next
  case (Cons c cs)
  then show ?case by (cases c) auto
qed

lemma fifo_bounded: "readEvents_bounded (fifo_sensor d e q)"
  by (auto simp: readEvents_bounded_def fifo_sensor_def)

text \<open>
  C6 (amended). Both drivers allocated, each \<open>readEvents\<close> returning a count between
  zero and the capacity it was given (and storing that many records), and a capacity
  that is not negative: a call whose wait succeeds returns a number between 0 and the
  capacity and changes no cell of the caller's array outside the offsets below the
  returned number; a driver is asked or drained only while the remaining capacity is
  not zero, with exactly the remaining capacity, at an offset that keeps it inside the
  array. A call whose wait fails returns \<open>-errno\<close> and touches neither the array nor a
  driver.
\<close>

theorem capacity_respected:
  assumes "list_all retried pre"
    and "poll_script w = pre @ r # rest"
    and "\<not> retried r"
    and "mSensors ctx ! accelgyromag = Some hub"
    and "mSensors ctx ! akm = Some mag"
    and "readEvents_bounded hub"
    and "readEvents_bounded mag"
    and "0 \<le> count"
  shows "\<exists>n ctx' w' data'.
           pollEvents ctx w data count = Some (Inr (n, ctx', w', data')) \<and>
           (if 0 \<le> p_ret r then 0 \<le> n \<and> n \<le> count else n = - p_errno r) \<and>
           (\<forall>k. k < 0 \<or> n \<le> k \<longrightarrow> data' k = data k) \<and>
           drains_within count count (new_calls w w')"
proof (cases "0 \<le> p_ret r")
  case True
  define tr where "tr = trace w @ map (\<lambda>r. SysPoll (- 1) (p_ret r)) pre @ [SysPoll (- 1) (p_ret r)]"
  define fr0 where "fr0 = \<lparr>f_ctx = ctx\<lparr>mPollFds := poll_writes (mPollFds ctx) (p_revents r)\<rparr>,
                     f_world = \<lparr>poll_script = rest, trace = tr\<rparr>,
                     f_count = count, f_nbEvents = 0, f_data = 0, f_buf = data\<rparr>"
  have inv: "\<forall>j. 0 \<le> j \<and> j < numSensorDrivers \<longrightarrow>
               (\<exists>s. mSensors (f_ctx fr0) ! j = Some s \<and> readEvents_bounded s)"
    using both_bounded [OF assms(4-7)] by (simp add: fr0_def)
  then have "\<forall>j. 0 \<le> j \<and> j < numSensorDrivers \<longrightarrow> mSensors (f_ctx fr0) ! j \<noteq> None"
    by auto
  from drain_loop_returns [OF this] obtain fr where dl: "drain_loop 0 fr0 = Inr fr" ..
  have c0: "0 \<le> f_count fr0" and d0: "0 \<le> f_data fr0" and cap0: "f_data fr0 + f_count fr0 = count"
    using assms(8) by (simp_all add: fr0_def)
  note cap = drain_loop_capacity [OF dl inv c0 d0 cap0]
  from cap obtain cs1 where
    cs1: "trace (f_world fr) = trace (f_world fr0) @ cs1"
      "\<forall>rest. drains_within count (f_count fr) rest \<longrightarrow> drains_within count (f_count fr0) (cs1 @ rest)"
    by blast
  from pollEvents_shape [OF assms(1,2) True fr0_def tr_def dl cs1(1)]
  obtain ctx' w' cs2 where
    res: "pollEvents ctx w data count = Some (Inr (f_nbEvents fr, ctx', w', f_buf fr))"
    and nc: "new_calls w w' = map (\<lambda>r. SysPoll (- 1) (p_ret r)) pre @ SysPoll (- 1) (p_ret r) # cs1 @ cs2"
    and q: "list_all (\<lambda>c. \<not> is_wait c \<and> \<not> is_driver_call c) cs2"
    by blast
  have n: "f_nbEvents fr = f_data fr" "0 \<le> f_data fr" "f_data fr \<le> count"
    using cap by (auto simp: fr0_def)
  have a: "if 0 \<le> p_ret r then 0 \<le> f_nbEvents fr \<and> f_nbEvents fr \<le> count
           else f_nbEvents fr = - p_errno r"
    using True n by simp
  have b: "\<forall>k. k < 0 \<or> f_nbEvents fr \<le> k \<longrightarrow> f_buf fr k = data k"
    using cap n(1) by (simp add: fr0_def)
  have "drains_within count (f_count fr0) (cs1 @ cs2)"
    using cs1(2) drains_within_quiet [OF q] by blast
  then have c: "drains_within count count (new_calls w w')"
    unfolding nc drains_within_waits by (simp add: fr0_def)
  from res a b c show ?thesis by blast
next
  case False
  with assms(3) have bad: "p_ret r < 0" "p_errno r \<noteq> EINTR"
    by (auto simp: retried_def)
  from pollEvents_fatal [OF assms(1,2) bad] obtain w' where
    res: "pollEvents ctx w data count = Some (Inr (- p_errno r, ctx, w', data))"
    and nc: "new_calls w w' = map (\<lambda>r. SysPoll (- 1) (p_ret r)) pre @ [SysPoll (- 1) (p_ret r)]"
    by blast
  have c: "drains_within count count (new_calls w w')"
    unfolding nc drains_within_waits by simp
  from res c False show ?thesis by auto
qed

theorem capacity_respected_witness:
  "list_all retried [poll_eintr] \<and> \<not> retried (poll_ok [1, 1, 0]) \<and>
   readEvents_bounded (fifo_sensor 5 0 [10, 11, 12]) \<and>
   (\<exists>n ctx' w' data'.
      pollEvents example_ctx (example_world [poll_eintr, poll_ok [1, 1, 0]]) Map.empty 2 =
        Some (Inr (n, ctx', w', data')) \<and> 0 \<le> n \<and> n \<le> 2 \<and> data' 2 = None \<and>
      drains_within 2 2 (new_calls (example_world [poll_eintr, poll_ok [1, 1, 0]]) w'))"
proof -
  have p: "list_all retried [poll_eintr]"
    by (simp add: retried_def poll_eintr_def)
  have s: "poll_script (example_world [poll_eintr, poll_ok [1, 1, 0]]) =
             [poll_eintr] @ poll_ok [1, 1, 0] # []"
    by (simp add: example_world_def)
  have r: "\<not> retried (poll_ok [1, 1, 0])"
    by (simp add: retried_def poll_ok_def)
  have h: "mSensors example_ctx ! accelgyromag = Some (fifo_sensor 5 0 [10, 11, 12])"
    by (simp add: example_ctx_def new_sensors_poll_context_t_def accelgyromag_def)
  have m: "mSensors example_ctx ! akm = Some (fifo_sensor 6 0 [20, 21])"
    by (simp add: example_ctx_def new_sensors_poll_context_t_def akm_def)
  have ok: "0 \<le> p_ret (poll_ok [1, 1, 0])"
    by (simp add: poll_ok_def)
  show ?thesis
    using p r fifo_bounded [of 5 0 "[10, 11, 12]"] ok
      capacity_respected [OF p s r h m fifo_bounded fifo_bounded, of 2 Map.empty]
    by fastforce
qed

text \<open>The definitions that a concrete run of \<open>pollEvents\<close> unfolds.\<close>

lemmas run_defs = pollEvents_def example_world_def poll_ok_def
        new_sensors_poll_context_t_def example_uninit_def poll_writes_def numFds_def
        accelgyromag_def akm_def wake_def POLLIN_def numSensorDrivers_def
        drain_loop.simps drain_step_def drain_read_def drain_wake_def fifo_sensor_def log_def Let_def
        upt_rec new_calls_def store_def

text \<open>
  C6 as first stated, with "a count no larger than the capacity it was given" as the
  only assumption, does not hold: \<open>readEvents\<close> returns an \<open>int\<close> and \<open>pollEvents\<close>
  never tests it. When the hub driver returns \<open>-5\<close> on a capacity of 10, \<open>count\<close>
  becomes 15 and \<open>data\<close> moves five cells back; the AKM driver is handed a capacity of
  15 there and stores 15 records, five of them before the caller's array.
\<close>

theorem negative_count_counterexample:
  "fst (fst (drv_readEvents (failing_sensor 5 (- 5)) [] 10)) \<le> 10 \<and>
   (case pollEvents failing_ctx (example_world [poll_ok [1, 1, 0]]) Map.empty 10 of
      Some (Inr (n, ctx', w', data')) \<Rightarrow>
        n = 10 \<and>
        new_calls (example_world [poll_ok [1, 1, 0]]) w' =
          [SysPoll (- 1) 2, DrvReadEvents 0 0 10 (- 5), DrvReadEvents 1 (- 5) 15 15] \<and>
        data' (- 5) = Some 20 \<and> data' (- 1) = Some 24 \<and> data' 0 = Some 25 \<and> data' 9 = Some 34 \<and>
        \<not> drains_within 10 10 (new_calls (example_world [poll_ok [1, 1, 0]]) w')
    | _ \<Rightarrow> False)"
  by (simp add: run_defs failing_ctx_def failing_sensor_def)

subsection \<open>\<open>pollEvents\<close>: order of the records\<close>

lemma revents_poll_writes:
  "i < numFds \<Longrightarrow> revents (poll_writes fds revs ! i) = revs ! i"
  by (simp add: poll_writes_def)

lemma drain_step_ready:
  assumes s: "mSensors (f_ctx fr) ! i = Some s"
    and rdy: "revents (mPollFds (f_ctx fr) ! i) AND POLLIN \<noteq> 0 \<or> drv_hasPendingEvents s (self s)"
    and rd: "drv_readEvents s (self s) (f_count fr) = ((nb, evs), s')"
  shows "\<exists>fr' cs. drain_step i fr = Inr fr' \<and>
           f_count fr' = f_count fr - nb \<and> f_nbEvents fr' = f_nbEvents fr + nb \<and>
           f_data fr' = f_data fr + nb \<and> f_buf fr' = store (f_buf fr) (f_data fr) evs \<and>
           mPollFds (f_ctx fr') = (mPollFds (f_ctx fr))[i := (mPollFds (f_ctx fr) ! i)\<lparr>revents := 0\<rparr>] \<and>
           mSensors (f_ctx fr') = (mSensors (f_ctx fr))[i := Some (s\<lparr>self := s'\<rparr>)] \<and>
           trace (f_world fr') = trace (f_world fr) @ cs \<and>
           filter is_drain_call cs = [DrvReadEvents i (f_data fr) (f_count fr) nb]"
proof (cases "revents (mPollFds (f_ctx fr) ! i) AND POLLIN \<noteq> 0")
  case True
  then show ?thesis
    using s rd by (simp add: drain_step_def drain_read_def Let_def log_def)
next
  case False
  with rdy have "drv_hasPendingEvents s (self s)" by simp
  with False show ?thesis
    using s rd by (simp add: drain_step_def drain_read_def Let_def log_def)
qed

lemma buffer_prefix_store:
  "buffer_prefix (store buf 0 xs) (int (length xs)) = map Some xs"
  by (rule nth_equalityI) (simp_all add: buffer_prefix_def store_def)

lemma buffer_prefix_store2:
  "buffer_prefix (store (store buf 0 xs) (int (length xs)) ys) (int (length xs) + int (length ys))
     = map Some (xs @ ys)"
  by (rule nth_equalityI) (auto simp: buffer_prefix_def store_def nth_append nat_add_distrib nat_diff_distrib')

text \<open>
  C5. Both drivers allocated and both ready (their entry readable, or
  \<open>hasPendingEvents\<close>) in a call with a capacity that is not zero: the hub driver is
  drained first, at offset 0, and the AKM driver after it, at the offset where the hub's
  records end; the array then starts with the hub's records followed by the AKM's, each
  in the order its \<open>readEvents\<close> stored them. When the hub's records use up the
  capacity, the array holds the hub's records only.
\<close>

theorem hub_before_fusion:
  assumes "list_all retried pre"
    and "poll_script w = pre @ r # rest"
    and "0 \<le> p_ret r"
    and "mSensors ctx ! accelgyromag = Some hub"
    and "mSensors ctx ! akm = Some mag"
    and "count \<noteq> 0"
    and "p_revents r ! accelgyromag AND POLLIN \<noteq> 0 \<or> drv_hasPendingEvents hub (self hub)"
    and "p_revents r ! akm AND POLLIN \<noteq> 0 \<or> drv_hasPendingEvents mag (self mag)"
    and "drv_readEvents hub (self hub) count = ((nb0, evs0), s0)"
    and "int (length evs0) = nb0"
    and "drv_readEvents mag (self mag) (count - nb0) = ((nb1, evs1), s1)"
    and "int (length evs1) = nb1"
  shows "\<exists>n ctx' w' data'.
           pollEvents ctx w data count = Some (Inr (n, ctx', w', data')) \<and>
           (if nb0 = count
            then n = nb0 \<and> buffer_prefix data' n = map Some evs0 \<and>
                 filter is_drain_call (new_calls w w') = [DrvReadEvents accelgyromag 0 count nb0]
            else n = nb0 + nb1 \<and> buffer_prefix data' n = map Some (evs0 @ evs1) \<and>
                 filter is_drain_call (new_calls w w') =
                   [DrvReadEvents accelgyromag 0 count nb0,
                    DrvReadEvents akm nb0 (count - nb0) nb1])"
proof -
  define tr where "tr = trace w @ map (\<lambda>r. SysPoll (- 1) (p_ret r)) pre @ [SysPoll (- 1) (p_ret r)]"
  define fr0 where "fr0 = \<lparr>f_ctx = ctx\<lparr>mPollFds := poll_writes (mPollFds ctx) (p_revents r)\<rparr>,
                     f_world = \<lparr>poll_script = rest, trace = tr\<rparr>,
                     f_count = count, f_nbEvents = 0, f_data = 0, f_buf = data\<rparr>"
  have w0: "filter is_drain_call (map (\<lambda>r. SysPoll (- 1) (p_ret r)) pre) = []"
    by (induction pre) auto
  have quiet: "filter is_drain_call cs = []"
    if "list_all (\<lambda>c. \<not> is_wait c \<and> \<not> is_driver_call c) cs" for cs
    using that by (induction cs) (auto elim: is_drain_call.elims)
  have s0: "mSensors (f_ctx fr0) ! 0 = Some hub"
    using assms(4) by (simp add: fr0_def accelgyromag_def)
  have rdy0: "revents (mPollFds (f_ctx fr0) ! 0) AND POLLIN \<noteq> 0 \<or> drv_hasPendingEvents hub (self hub)"
    using assms(7) by (simp add: fr0_def revents_poll_writes numFds_def accelgyromag_def)
  have rd0: "drv_readEvents hub (self hub) (f_count fr0) = ((nb0, evs0), s0)"
    using assms(9) by (simp add: fr0_def)
  from drain_step_ready [OF s0 rdy0 rd0] obtain fr1 cs1 where
    st0: "drain_step 0 fr0 = Inr fr1"
    and c1: "f_count fr1 = count - nb0" and n1: "f_nbEvents fr1 = nb0" and d1: "f_data fr1 = nb0"
    and b1: "f_buf fr1 = store data 0 evs0"
    and p1: "mPollFds (f_ctx fr1) = (mPollFds (f_ctx fr0))[0 := (mPollFds (f_ctx fr0) ! 0)\<lparr>revents := 0\<rparr>]"
    and m1: "mSensors (f_ctx fr1) = (mSensors (f_ctx fr0))[0 := Some (hub\<lparr>self := s0\<rparr>)]"
    and t1: "trace (f_world fr1) = trace (f_world fr0) @ cs1"
    and f1: "filter is_drain_call cs1 = [DrvReadEvents 0 0 count nb0]"
    by (auto simp: fr0_def)
  have live0: "f_count fr0 \<noteq> 0" "0 < numSensorDrivers"
    using assms(6) by (simp_all add: fr0_def numSensorDrivers_def)
  show ?thesis
  proof (cases "nb0 = count")
    case True
    have dl1: "drain_loop (Suc 0) fr1 = Inr fr1"
      by (rule drain_loop_no_capacity) (simp add: c1 True)
    have dl0: "drain_loop 0 fr0 = Inr fr1"
      using drain_loop_step [OF live0] st0 dl1 by simp
    from pollEvents_shape [OF assms(1,2,3) fr0_def tr_def dl0 t1]
    obtain ctx' w' cs3 where
      res: "pollEvents ctx w data count = Some (Inr (f_nbEvents fr1, ctx', w', f_buf fr1))"
      and nc: "new_calls w w' =
        map (\<lambda>r. SysPoll (- 1) (p_ret r)) pre @ SysPoll (- 1) (p_ret r) # cs1 @ cs3"
      and q: "list_all (\<lambda>c. \<not> is_wait c \<and> \<not> is_driver_call c) cs3"
      by blast
    have a: "pollEvents ctx w data count = Some (Inr (nb0, ctx', w', f_buf fr1))"
      using res by (simp add: n1)
    have b: "buffer_prefix (f_buf fr1) nb0 = map Some evs0"
      unfolding b1 using buffer_prefix_store [of data evs0] assms(10) by simp
    have c: "filter is_drain_call (new_calls w w') = [DrvReadEvents accelgyromag 0 count nb0]"
      by (simp add: nc w0 f1 quiet [OF q] accelgyromag_def)
    from a b c True show ?thesis by auto
  next
    case False
    have s1: "mSensors (f_ctx fr1) ! 1 = Some mag"
      using assms(5) by (simp add: m1 fr0_def akm_def)
    have rdy1: "revents (mPollFds (f_ctx fr1) ! 1) AND POLLIN \<noteq> 0 \<or>
                drv_hasPendingEvents mag (self mag)"
      using assms(8) by (simp add: p1 fr0_def revents_poll_writes numFds_def akm_def)
    have rd1: "drv_readEvents mag (self mag) (f_count fr1) = ((nb1, evs1), s1)"
      using assms(11) by (simp add: c1)
    from drain_step_ready [OF s1 rdy1 rd1] obtain fr2 cs2 where
      st1: "drain_step 1 fr1 = Inr fr2"
      and n2: "f_nbEvents fr2 = nb0 + nb1"
      and b2: "f_buf fr2 = store (store data 0 evs0) nb0 evs1"
      and t2: "trace (f_world fr2) = trace (f_world fr1) @ cs2"
      and f2: "filter is_drain_call cs2 = [DrvReadEvents 1 nb0 (count - nb0) nb1]"
      by (auto simp: c1 n1 d1 b1)
    have dl2: "drain_loop (Suc 1) fr2 = Inr fr2"
      by (rule drain_loop_end) (simp add: numSensorDrivers_def)
    have live1: "f_count fr1 \<noteq> 0" "1 < numSensorDrivers"
      using False by (simp_all add: c1 numSensorDrivers_def)
    have dl1: "drain_loop (Suc 0) fr1 = Inr fr2"
      using drain_loop_step [OF live1] st1 dl2 by simp
    have dl0: "drain_loop 0 fr0 = Inr fr2"
      using drain_loop_step [OF live0] st0 dl1 by simp
    have t: "trace (f_world fr2) = trace (f_world fr0) @ (cs1 @ cs2)"
      by (simp add: t1 t2)
    from pollEvents_shape [OF assms(1,2,3) fr0_def tr_def dl0 t]
    obtain ctx' w' cs3 where
      res: "pollEvents ctx w data count = Some (Inr (f_nbEvents fr2, ctx', w', f_buf fr2))"
      and nc: "new_calls w w' =
        map (\<lambda>r. SysPoll (- 1) (p_ret r)) pre @ SysPoll (- 1) (p_ret r) # (cs1 @ cs2) @ cs3"
      and q: "list_all (\<lambda>c. \<not> is_wait c \<and> \<not> is_driver_call c) cs3"
      by blast
    have a: "pollEvents ctx w data count = Some (Inr (nb0 + nb1, ctx', w', f_buf fr2))"
      using res by (simp add: n2)
    have b: "buffer_prefix (f_buf fr2) (nb0 + nb1) = map Some (evs0 @ evs1)"
      unfolding b2 using buffer_prefix_store2 [of data evs0 evs1] assms(10,12) by simp
    have c: "filter is_drain_call (new_calls w w') =
               [DrvReadEvents accelgyromag 0 count nb0, DrvReadEvents akm nb0 (count - nb0) nb1]"
      by (simp add: nc w0 f1 f2 quiet [OF q] accelgyromag_def akm_def)
    from a b c False show ?thesis by auto
  qed
qed

theorem hub_before_fusion_witness:
  "list_all retried [] \<and> 0 \<le> p_ret (poll_ok [1, 0, 0]) \<and>
   p_revents (poll_ok [1, 0, 0]) ! accelgyromag AND POLLIN = 1 \<and>
   drv_hasPendingEvents (fifo_sensor 6 0 [20, 21]) [20, 21] \<and>
   (\<exists>ctx' w' data'.
      pollEvents example_ctx (example_world [poll_ok [1, 0, 0]]) Map.empty 10 =
        Some (Inr (5, ctx', w', data')) \<and>
      buffer_prefix data' 5 = [Some 10, Some 11, Some 12, Some 20, Some 21] \<and>
      filter is_drain_call (new_calls (example_world [poll_ok [1, 0, 0]]) w') =
        [DrvReadEvents accelgyromag 0 10 3, DrvReadEvents akm 3 7 2])"
proof -
  have p: "list_all retried []" by simp
  have s: "poll_script (example_world [poll_ok [1, 0, 0]]) = [] @ poll_ok [1, 0, 0] # []"
    by (simp add: example_world_def)
  have ok: "0 \<le> p_ret (poll_ok [1, 0, 0])"
    by (simp add: poll_ok_def)
  have h: "mSensors example_ctx ! accelgyromag = Some (fifo_sensor 5 0 [10, 11, 12])"
    by (simp add: example_ctx_def new_sensors_poll_context_t_def accelgyromag_def)
  have m: "mSensors example_ctx ! akm = Some (fifo_sensor 6 0 [20, 21])"
    by (simp add: example_ctx_def new_sensors_poll_context_t_def akm_def)
  have c: "(10::int) \<noteq> 0" by simp
  have r0: "p_revents (poll_ok [1, 0, 0]) ! accelgyromag AND POLLIN \<noteq> 0 \<or>
      drv_hasPendingEvents (fifo_sensor 5 0 [10, 11, 12]) (self (fifo_sensor 5 0 [10, 11, 12]))"
    by (simp add: fifo_sensor_def)
  have r1: "p_revents (poll_ok [1, 0, 0]) ! akm AND POLLIN \<noteq> 0 \<or>
      drv_hasPendingEvents (fifo_sensor 6 0 [20, 21]) (self (fifo_sensor 6 0 [20, 21]))"
    by (simp add: fifo_sensor_def)
  have e0: "drv_readEvents (fifo_sensor 5 0 [10, 11, 12]) (self (fifo_sensor 5 0 [10, 11, 12])) 10
              = ((3, [10, 11, 12]), [])"
    by (simp add: fifo_sensor_def)
  have l0: "int (length [10::nat, 11, 12]) = 3" by simp
  have e1: "drv_readEvents (fifo_sensor 6 0 [20, 21]) (self (fifo_sensor 6 0 [20, 21])) (10 - 3)
              = ((2, [20, 21]), [])"
    by (simp add: fifo_sensor_def)
  have l1: "int (length [20::nat, 21]) = 2" by simp
  have r0': "p_revents (poll_ok [1, 0, 0]) ! accelgyromag AND POLLIN = 1"
    by (simp add: poll_ok_def accelgyromag_def POLLIN_def)
  have r1': "drv_hasPendingEvents (fifo_sensor 6 0 [20, 21]) [20, 21]"
    by (simp add: fifo_sensor_def)
  show ?thesis
    using p ok r0' r1' hub_before_fusion [OF p s ok h m c r0 r1 e0 l0 e1 l1, of Map.empty]
    by simp
qed

subsection \<open>\<open>pollEvents\<close>: the waits and the one drain pass\<close>








subsection \<open>A driver that was not allocated\<close>

lemma absent_slot_activate:
  "0 \<le> handleToDriver ids h \<Longrightarrow> mSensors ctx ! nat (handleToDriver ids h) = None \<Longrightarrow>
   activate ids ctx w h enabled = Inl NullDereference"
  by (simp add: activate_def)

lemma absent_slot_setDelay:
  "0 \<le> handleToDriver ids h \<Longrightarrow> mSensors ctx ! nat (handleToDriver ids h) = None \<Longrightarrow>
   setDelay ids ctx w h ns = Inl NullDereference"
  by (simp add: setDelay_def)

lemma absent_slot_drain_step:
  "mSensors (f_ctx fr) ! i = None \<Longrightarrow> drain_step i fr = Inl NullDereference"
  by (simp add: drain_step_def drain_read_def)

text \<open>
  C1 (not met by the source). An operation routed to a driver that was not allocated
  should fail with an error code. The constructor tests the result of \<open>new\<close> and goes
  on with a null slot, but no operation tests the slot: with the AKM driver's
  allocation failed, \<open>activate\<close> and \<open>setDelay\<close> of \<open>ID_M\<close>, and the drain loop of
  \<open>pollEvents\<close> once it reaches index \<open>akm\<close> with capacity left, call a method through
  the null pointer.
\<close>

theorem absent_source_dereferenced:
  "mSensors example_ctx_no_akm ! akm = None \<and>
   handleToDriver example_ids (ID_M example_ids) = int akm \<and>
   activate example_ids example_ctx_no_akm (example_world []) (ID_M example_ids) 1
     = Inl NullDereference \<and>
   setDelay example_ids example_ctx_no_akm (example_world []) (ID_M example_ids) 1000
     = Inl NullDereference \<and>
   pollEvents example_ctx_no_akm (example_world [poll_ok [1, 0, 0]]) Map.empty 10
     = Some (Inl NullDereference)"
proof -
  have n: "mSensors example_ctx_no_akm ! akm = None"
    by (simp add: example_ctx_no_akm_def new_sensors_poll_context_t_def akm_def)
  have r: "handleToDriver example_ids (ID_M example_ids) = int akm"
    by (simp add: handleToDriver_def example_ids_def)
  have a: "activate example_ids example_ctx_no_akm (example_world []) (ID_M example_ids) 1
     = Inl NullDereference"
    by (rule absent_slot_activate) (simp_all add: r n)
  have d: "setDelay example_ids example_ctx_no_akm (example_world []) (ID_M example_ids) 1000
     = Inl NullDereference"
    by (rule absent_slot_setDelay) (simp_all add: r n)
  have p: "pollEvents example_ctx_no_akm (example_world [poll_ok [1, 0, 0]]) Map.empty 10
     = Some (Inl NullDereference)"
    by (simp add: pollEvents_def example_world_def poll_ok_def example_ctx_no_akm_def
        new_sensors_poll_context_t_def example_uninit_def poll_writes_def numFds_def
        accelgyromag_def akm_def wake_def POLLIN_def numSensorDrivers_def
        drain_loop.simps drain_step_def drain_read_def fifo_sensor_def log_def Let_def
        upt_rec)
  from n r a d p show ?thesis by blast
qed

end
